theory Spec2Isabelle
  imports Main "HOL-Library.AList"
begin

section \<open>The name/dimension allocator of \<open>pyro.contrib.funsor.handlers.runtime\<close>\<close>

text \<open>
  The module keeps one \<open>DimStack\<close>: a list of \<open>StackFrame\<close> objects, each holding two
  dictionaries (\<open>name_to_dim\<close>, \<open>dim_to_name\<close>) and references to other frames.
  Frames are Python objects that are shared by reference (the stack, \<open>parents\<close> and
  \<open>iter_parents\<close> may all point to the same frame), so the model has an explicit store
  from references to frames and the stack is a list of references.

  Names are strings and dimensions are Python integers (\<open>int\<close>); an argument that may be
  \<open>None\<close> is an \<open>option\<close>. The dictionaries are \<open>OrderedDict\<close>s: association lists
  whose update keeps the position of an existing key and appends a new one. Their keys
  are names and dimensions proper (never \<open>None\<close>), and each frame owns its two
  dictionaries.
\<close>

subsection \<open>Errors and dictionaries\<close>

datatype error = AssertionError | ValueError | TypeError | IndexError

type_synonym ref = nat

type_synonym ('k, 'v) dict = "('k \<times> 'v) list"

text \<open>\<open>d.get(k, default)\<close>, \<open>k in d\<close>, \<open>d[k] = v\<close> and \<open>d.pop(k, None)\<close>.\<close>

definition dict_get :: "('k, 'v) dict \<Rightarrow> 'k option \<Rightarrow> 'v option \<Rightarrow> 'v option" where
  "dict_get d k dflt =
     (case k of None \<Rightarrow> dflt
      | Some k' \<Rightarrow> (case map_of d k' of None \<Rightarrow> dflt | Some v \<Rightarrow> Some v))"

definition dict_in :: "'k option \<Rightarrow> ('k, 'v) dict \<Rightarrow> bool" where
  "dict_in k d = (case k of None \<Rightarrow> False | Some k' \<Rightarrow> map_of d k' \<noteq> None)"

definition dict_set :: "('k, 'v) dict \<Rightarrow> 'k \<Rightarrow> 'v \<Rightarrow> ('k, 'v) dict" where
  "dict_set d k v = AList.update k v d"

definition dict_pop :: "('k, 'v) dict \<Rightarrow> 'k option \<Rightarrow> ('k, 'v) dict" where
  "dict_pop d k = (case k of None \<Rightarrow> d | Some k' \<Rightarrow> AList.delete k' d)"

subsection \<open>Decimal text of an integer, as \<open>str.format\<close> prints it\<close>

text \<open>The digit of a number below ten.\<close>

definition digit_char :: "nat \<Rightarrow> char" where
  "digit_char n = ''0123456789'' ! n"

function str_nat :: "nat \<Rightarrow> string" where
  "str_nat n = (if n < 10 then [digit_char n] else str_nat (n div 10) @ [digit_char (n mod 10)])"
  by pat_completeness auto
termination
  by (relation "measure (\<lambda>n. n)") auto

declare str_nat.simps [simp del]

definition str_int :: "int \<Rightarrow> string" where
  "str_int i = (if i < 0 then CHR ''-'' # str_nat (nat (- i)) else str_nat (nat i))"

text \<open>Reading a decimal text back, to say what \<open>str_nat\<close> prints.\<close>

definition digit_value :: "char \<Rightarrow> nat" where
  "digit_value c = of_char c - 48"

definition decimal_value :: "string \<Rightarrow> nat" where
  "decimal_value cs = foldl (\<lambda>a c. 10 * a + digit_value c) 0 cs"

subsection \<open>\<open>StackFrame\<close> (its method \<open>write\<close> is \<open>write_frame\<close> here: \<open>write\<close> is a keyword)\<close>

record StackFrame =
  name_to_dim :: "(string, int) dict"
  dim_to_name :: "(int, string) dict"
  parents :: "ref list"
  iter_parents :: "ref list"
  keep :: bool

definition read :: "StackFrame \<Rightarrow> string option \<Rightarrow> int option \<Rightarrow> string option \<times> int option \<times> bool" where
  "read self name dim =
     (let found_name = dict_get (dim_to_name self) dim name;
          found_dim = dict_get (name_to_dim self) name dim;
          found = (dict_in name (name_to_dim self) \<or> dict_in dim (dim_to_name self))
      in (found_name, found_dim, found))"

definition write_frame :: "StackFrame \<Rightarrow> string option \<Rightarrow> int option \<Rightarrow> error + StackFrame" where
  "write_frame self name dim =
     (case (name, dim) of
        (Some n, Some d) \<Rightarrow>
          Inr ((self\<lparr>dim_to_name := dict_set (dim_to_name self) d n\<rparr>)
                 \<lparr>name_to_dim := dict_set (name_to_dim self) n d\<rparr>)
      | _ \<Rightarrow> Inl AssertionError)"

definition free :: "StackFrame \<Rightarrow> string option \<Rightarrow> int option \<Rightarrow> (string option \<times> int option) \<times> StackFrame" where
  "free self name dim =
     ((name, dim),
      (self\<lparr>dim_to_name := dict_pop (dim_to_name self) dim\<rparr>)
         \<lparr>name_to_dim := dict_pop (name_to_dim self) name\<rparr>)"

subsection \<open>Requests\<close>

datatype DimType = LOCAL | GLOBAL | VISIBLE

datatype DimRequest = DimRequest "int option" DimType

datatype NameRequest = NameRequest "string option" DimType

text \<open>
  The two arguments of \<open>request\<close>: each is either a request object or a plain value
  (possibly \<open>None\<close>).
\<close>

datatype name_arg = NameReq NameRequest | NameVal "string option"

datatype dim_arg = DimReq DimRequest | DimVal "int option"

subsection \<open>\<open>DimStack\<close>\<close>

record DimStack =
  heap :: "ref \<Rightarrow> StackFrame"
  stack :: "ref list"
  first_available_dim :: "int option"
  outermost :: "ref option"

definition empty_frame :: StackFrame where
  "empty_frame = \<lparr>name_to_dim = [], dim_to_name = [], parents = [], iter_parents = [], keep = False\<rparr>"

text \<open>\<open>DimStack.__init__\<close>: one global frame (at reference 0), watermark \<open>-1\<close>.\<close>

definition init :: DimStack where
  "init = \<lparr>heap = (\<lambda>_. empty_frame), stack = [0], first_available_dim = Some (- 1), outermost = None\<rparr>"

definition MAX_DIM :: int where
  "MAX_DIM = - 25"

definition set_first_available_dim :: "DimStack \<Rightarrow> int option \<Rightarrow> error + (int option \<times> DimStack)" where
  "set_first_available_dim self dim =
     (if (case dim of None \<Rightarrow> True | Some d \<Rightarrow> MAX_DIM < d \<and> d < 0)
      then Inr (first_available_dim self, self\<lparr>first_available_dim := dim\<rparr>)
      else Inl AssertionError)"

definition push :: "DimStack \<Rightarrow> ref \<Rightarrow> DimStack" where
  "push self frame = self\<lparr>stack := stack self @ [frame]\<rparr>"

definition pop :: "DimStack \<Rightarrow> error + (ref \<times> DimStack)" where
  "pop self =
     (if length (stack self) > 1
      then Inr (last (stack self), self\<lparr>stack := butlast (stack self)\<rparr>)
      else Inl AssertionError)"

definition current_frame :: "DimStack \<Rightarrow> error + ref" where
  "current_frame self = (case stack self of [] \<Rightarrow> Inl IndexError | _ \<Rightarrow> Inr (last (stack self)))"

definition global_frame :: "DimStack \<Rightarrow> error + ref" where
  "global_frame self = (case stack self of [] \<Rightarrow> Inl IndexError | g # _ \<Rightarrow> Inr g)"

definition current_env :: "DimStack \<Rightarrow> error + ref list" where
  "current_env self =
     (case global_frame self of Inl e \<Rightarrow> Inl e
      | Inr g \<Rightarrow>
        (case current_frame self of Inl e \<Rightarrow> Inl e
         | Inr c \<Rightarrow> Inr ([g, c] @ iter_parents (heap self c) @ parents (heap self c))))"

subsection \<open>\<open>_gendim\<close>\<close>

text \<open>\<open>any(fresh_dim in p.dim_to_name for p in conflict_frames)\<close>\<close>

definition occupied :: "(ref \<Rightarrow> StackFrame) \<Rightarrow> ref list \<Rightarrow> int \<Rightarrow> bool" where
  "occupied h conflict_frames fresh_dim =
     list_ex (\<lambda>p. dict_in (Some fresh_dim) (dim_to_name (h p))) conflict_frames"

definition occupied_dims :: "(ref \<Rightarrow> StackFrame) \<Rightarrow> ref list \<Rightarrow> int set" where
  "occupied_dims h conflict_frames = (\<Union>p \<in> set conflict_frames. fst ` set (dim_to_name (h p)))"

text \<open>The \<open>while\<close> loop: it ends because the dictionaries are finite.\<close>

function search_dim :: "(ref \<Rightarrow> StackFrame) \<Rightarrow> ref list \<Rightarrow> int \<Rightarrow> int" where
  "search_dim h conflict_frames fresh_dim =
     (if occupied h conflict_frames fresh_dim
      then search_dim h conflict_frames (fresh_dim - 1)
      else fresh_dim)"
  by pat_completeness auto
termination
proof (relation "measure (\<lambda>(h, fs, d). card {k \<in> occupied_dims h fs. k \<le> d})")
  show "wf (measure (\<lambda>(h, fs, d). card {k \<in> occupied_dims h fs. k \<le> d}))"
    by simp
next
  fix h :: "ref \<Rightarrow> StackFrame" and fs :: "ref list" and d :: int
  assume occ: "occupied h fs d"
  have "d \<in> occupied_dims h fs"
    using occ
    by (auto simp: occupied_def occupied_dims_def dict_in_def list_ex_iff map_of_eq_None_iff)
  then have "{k \<in> occupied_dims h fs. k \<le> d - 1} \<subset> {k \<in> occupied_dims h fs. k \<le> d}"
    by auto
  moreover have "finite {k \<in> occupied_dims h fs. k \<le> d}"
    by (simp add: occupied_dims_def)
  ultimately have "card {k \<in> occupied_dims h fs. k \<le> d - 1} < card {k \<in> occupied_dims h fs. k \<le> d}"
    by (rule psubset_card_mono [rotated])
  then show "((h, fs, d - 1), (h, fs, d)) \<in> measure (\<lambda>(h, fs, d). card {k \<in> occupied_dims h fs. k \<le> d})"
    by simp
qed

declare search_dim.simps [simp del]

text \<open>Lines 92 to 95: the name handed out. \<open>-None\<close> raises a \<open>TypeError\<close>.\<close>

definition fresh_name :: "string option \<Rightarrow> int option \<Rightarrow> error + string" where
  "fresh_name name dim =
     (case name of
        None \<Rightarrow> (case dim of None \<Rightarrow> Inl TypeError
                 | Some d \<Rightarrow> Inr (''_pyro_dim_'' @ str_int (- d)))
      | Some n \<Rightarrow> Inr n)"

text \<open>Lines 98 to 104: the candidate dimension.\<close>

definition fresh_dim :: "DimStack \<Rightarrow> ref list \<Rightarrow> int option \<Rightarrow> DimType \<Rightarrow> int" where
  "fresh_dim self conflict_frames dim dim_type =
     (case dim of
        None \<Rightarrow>
          search_dim (heap self) conflict_frames
            (case (if dim_type \<noteq> VISIBLE then first_available_dim self else Some (- 1)) of
               None \<Rightarrow> - 1 | Some d \<Rightarrow> d)
      | Some d \<Rightarrow> d)"

text \<open>
  Lines 106 to 111: the three tests, in the order \<open>or\<close> evaluates them; comparing an
  integer with \<open>None\<close> raises a \<open>TypeError\<close>.
\<close>

definition gendim :: "DimStack \<Rightarrow> NameRequest \<Rightarrow> DimRequest \<Rightarrow> error + (string \<times> int)" where
  "gendim self name_request dim_request =
     (case (name_request, dim_request) of
        (NameRequest name _, DimRequest dim dim_type) \<Rightarrow>
          (case fresh_name name dim of
             Inl e \<Rightarrow> Inl e
           | Inr fname \<Rightarrow>
             (case current_env self of
                Inl e \<Rightarrow> Inl e
              | Inr conflict_frames \<Rightarrow>
                (let fdim = fresh_dim self conflict_frames dim dim_type
                 in if fdim < MAX_DIM then Inl ValueError
                    else if occupied (heap self) conflict_frames fdim then Inl ValueError
                    else if dim_type = VISIBLE then
                      (case first_available_dim self of
                         None \<Rightarrow> Inl TypeError
                       | Some w \<Rightarrow> if fdim \<le> w then Inl ValueError else Inr (fname, fdim))
                    else Inr (fname, fdim)))))"

subsection \<open>\<open>request\<close>\<close>

text \<open>
  The lookup loop over \<open>current_env\<close>. The environment always holds the global and the
  current frame, so the loop body runs at least once; a frame that does not find
  anything hands back the name and dimension it was given.
\<close>

fun lookup :: "(ref \<Rightarrow> StackFrame) \<Rightarrow> ref list \<Rightarrow> string option \<Rightarrow> int option
    \<Rightarrow> string option \<times> int option \<times> bool" where
  "lookup h [] name dim = (name, dim, False)"
| "lookup h (frame # frames) name dim =
     (case read (h frame) name dim of
        (name', dim', found) \<Rightarrow>
          if found then (name', dim', True) else lookup h frames name' dim')"

text \<open>\<open>for frame in write_frames: frame.write(name, dim)\<close>\<close>

fun write_all :: "(ref \<Rightarrow> StackFrame) \<Rightarrow> ref list \<Rightarrow> string option \<Rightarrow> int option
    \<Rightarrow> error + (ref \<Rightarrow> StackFrame)" where
  "write_all h [] name dim = Inr h"
| "write_all h (frame # frames) name dim =
     (case write_frame (h frame) name dim of
        Inl e \<Rightarrow> Inl e
      | Inr f' \<Rightarrow> write_all (h(frame := f')) frames name dim)"

definition write_frames :: "DimStack \<Rightarrow> DimType \<Rightarrow> error + ref list" where
  "write_frames self dim_type =
     (if dim_type \<noteq> LOCAL then
        (case global_frame self of Inl e \<Rightarrow> Inl e | Inr g \<Rightarrow> Inr [g])
      else
        (case current_frame self of Inl e \<Rightarrow> Inl e
         | Inr c \<Rightarrow> Inr (c # (if keep (heap self c) then parents (heap self c) else []))))"

text \<open>The body of \<open>request\<close> once name, dimension and policy have been unpacked.\<close>

definition resolve :: "DimStack \<Rightarrow> string option \<Rightarrow> int option \<Rightarrow> DimType
    \<Rightarrow> error + ((string option \<times> int option) \<times> DimStack)" where
  "resolve self name dim dim_type =
     (case current_env self of
        Inl e \<Rightarrow> Inl e
      | Inr env \<Rightarrow>
        (case lookup (heap self) env name dim of
           (name', dim', found) \<Rightarrow>
             if found then Inr ((name', dim'), self)
             else
               (case gendim self (NameRequest name' dim_type) (DimRequest dim' dim_type) of
                  Inl e \<Rightarrow> Inl e
                | Inr (new_name, new_dim) \<Rightarrow>
                  (case write_frames self dim_type of
                     Inl e \<Rightarrow> Inl e
                   | Inr frames \<Rightarrow>
                     (case write_all (heap self) frames (Some new_name) (Some new_dim) of
                        Inl e \<Rightarrow> Inl e
                      | Inr h' \<Rightarrow>
                          Inr ((Some new_name, Some new_dim), self\<lparr>heap := h'\<rparr>))))))"

text \<open>Lines 114 to 118: exactly one argument is a request object; it carries the policy.\<close>

definition unpack :: "name_arg \<Rightarrow> dim_arg \<Rightarrow> error + (string option \<times> int option \<times> DimType)" where
  "unpack name dim =
     (case (name, dim) of
        (NameVal n, DimReq (DimRequest d dim_type)) \<Rightarrow> Inr (n, d, dim_type)
      | (NameReq (NameRequest n dim_type), DimVal d) \<Rightarrow> Inr (n, d, dim_type)
      | _ \<Rightarrow> Inl AssertionError)"

definition request :: "DimStack \<Rightarrow> name_arg \<Rightarrow> dim_arg
    \<Rightarrow> error + ((string option \<times> int option) \<times> DimStack)" where
  "request self name dim =
     (case unpack name dim of
        Inl e \<Rightarrow> Inl e
      | Inr (n, d, dim_type) \<Rightarrow> resolve self n d dim_type)"

subsection \<open>Sequences of operations\<close>

text \<open>
  What a caller can do to the allocator: the stack operations, and \<open>write\<close> and
  \<open>free\<close> on a frame it holds a reference to. An operation that raises leaves the
  state as it was (every \<open>raise\<close> and \<open>assert\<close> of the module comes before the
  first mutation of the call), and the caller may go on after catching it.
\<close>

datatype op =
    Push ref
  | Pop
  | Request name_arg dim_arg
  | SetFirstAvailableDim "int option"
  | Write ref "string option" "int option"
  | Free ref "string option" "int option"

fun exec :: "DimStack \<Rightarrow> op \<Rightarrow> error + DimStack" where
  "exec s (Push frame) = Inr (push s frame)"
| "exec s Pop = (case pop s of Inl e \<Rightarrow> Inl e | Inr (_, s') \<Rightarrow> Inr s')"
| "exec s (Request name dim) = (case request s name dim of Inl e \<Rightarrow> Inl e | Inr (_, s') \<Rightarrow> Inr s')"
| "exec s (SetFirstAvailableDim dim) =
     (case set_first_available_dim s dim of Inl e \<Rightarrow> Inl e | Inr (_, s') \<Rightarrow> Inr s')"
| "exec s (Write r name dim) =
     (case write_frame (heap s r) name dim of
        Inl e \<Rightarrow> Inl e
      | Inr f' \<Rightarrow> Inr (s\<lparr>heap := (heap s)(r := f')\<rparr>))"
| "exec s (Free r name dim) = Inr (s\<lparr>heap := (heap s)(r := snd (free (heap s r) name dim))\<rparr>)"

fun run :: "DimStack \<Rightarrow> op list \<Rightarrow> DimStack" where
  "run s [] = s"
| "run s (x # xs) = run (case exec s x of Inl _ \<Rightarrow> s | Inr s' \<Rightarrow> s') xs"

text \<open>The two dictionaries of a frame are exact inverses.\<close>

definition bijective :: "StackFrame \<Rightarrow> bool" where
  "bijective f \<longleftrightarrow>
     (\<forall>n d. map_of (name_to_dim f) n = Some d \<longleftrightarrow> map_of (dim_to_name f) d = Some n)"

text \<open>
  An operation that cannot leave a half entry behind in a frame whose dictionaries are
  inverses: a \<open>write\<close> of a pair whose name and dimension are each unbound or already
  bound to one another; a \<open>free\<close> of a pair whose name and dimension, where bound, are
  bound to one another; a \<open>request\<close> that supplies a name; and a \<open>request\<close> without
  a name unless its lookup fails, \<open>_gendim\<close> returns, and the default name it returns
  is bound to another dimension in a frame that gets written. The stack operations touch
  no frame.
\<close>

fun benign :: "DimStack \<Rightarrow> op \<Rightarrow> bool" where
  "benign s (Write r name dim) =
     (case (name, dim) of
        (Some n, Some d) \<Rightarrow>
          (map_of (name_to_dim (heap s r)) n = None \<or> map_of (name_to_dim (heap s r)) n = Some d)
          \<and> (map_of (dim_to_name (heap s r)) d = None \<or> map_of (dim_to_name (heap s r)) d = Some n)
      | _ \<Rightarrow> True)"
| "benign s (Free r name dim) =
     ((case name of
         None \<Rightarrow> True
       | Some n \<Rightarrow> (case map_of (name_to_dim (heap s r)) n of None \<Rightarrow> True | Some d \<Rightarrow> dim = Some d))
      \<and> (case dim of
            None \<Rightarrow> True
          | Some d \<Rightarrow> (case map_of (dim_to_name (heap s r)) d of None \<Rightarrow> True | Some n \<Rightarrow> name = Some n)))"
| "benign s (Request na da) =
     (case unpack na da of
        Inr (None, Some d, t) \<Rightarrow>
          (case current_env s of
             Inl _ \<Rightarrow> True
           | Inr env \<Rightarrow>
               (case lookup (heap s) env None (Some d) of
                  (_, _, found) \<Rightarrow>
                    found \<or>
                    (case gendim s (NameRequest None t) (DimRequest (Some d) t) of
                       Inl _ \<Rightarrow> True
                     | Inr (n, d') \<Rightarrow>
                         (case write_frames s t of
                            Inl _ \<Rightarrow> True
                          | Inr frames \<Rightarrow>
                              list_all (\<lambda>r. map_of (name_to_dim (heap s r)) n = None
                                          \<or> map_of (name_to_dim (heap s r)) n = Some d')
                                frames))))
      | _ \<Rightarrow> True)"
| "benign s _ = True"

fun benign_run :: "DimStack \<Rightarrow> op list \<Rightarrow> bool" where
  "benign_run s [] = True"
| "benign_run s (x # xs) =
     (benign s x \<and> benign_run (case exec s x of Inl _ \<Rightarrow> s | Inr s' \<Rightarrow> s') xs)"

subsection \<open>Example states\<close>

text \<open>
  A stack of two frames: the global frame (reference 0) and a frame (reference 1) with
  \<open>keep\<close> set whose parent is a third frame (reference 2); then the same after
  \<open>x\<close> was bound to \<open>-1\<close> under the \<open>LOCAL\<close> policy, and after \<open>y\<close> was bound to
  \<open>-1\<close> under the \<open>GLOBAL\<close> policy.
\<close>

definition nested :: DimStack where
  "nested =
     \<lparr>heap = (\<lambda>_. empty_frame)(1 := empty_frame\<lparr>parents := [2], keep := True\<rparr>),
      stack = [0, 1], first_available_dim = Some (- 1), outermost = None\<rparr>"

definition bound_x :: "StackFrame \<Rightarrow> StackFrame" where
  "bound_x f = f\<lparr>dim_to_name := [(- 1, ''x'')], name_to_dim := [(''x'', - 1)]\<rparr>"

definition nested_x :: DimStack where
  "nested_x = nested\<lparr>heap := (heap nested)(1 := bound_x (heap nested 1), 2 := bound_x (heap nested 2))\<rparr>"

definition nested_y :: DimStack where
  "nested_y = nested\<lparr>heap := (heap nested)(0 := empty_frame\<lparr>dim_to_name := [(- 1, ''y'')], name_to_dim := [(''y'', - 1)]\<rparr>)\<rparr>"

section \<open>Properties\<close>

subsection \<open>Auxiliary facts\<close>


lemma search_dim_free: "\<not> occupied h fs (search_dim h fs d)"
proof (induction h fs d rule: search_dim.induct)
  case (1 h fs d)
  then show ?case by (subst search_dim.simps) simp
qed

lemma search_dim_le: "search_dim h fs d \<le> d"
proof (induction h fs d rule: search_dim.induct)
  case (1 h fs d)
  show ?case
  proof (cases "occupied h fs d")
    case True
    with 1 have "search_dim h fs (d - 1) \<le> d - 1" by simp
    with True show ?thesis by (subst search_dim.simps) simp
  next
    case False
    then show ?thesis by (subst search_dim.simps) simp
  qed
qed

lemma search_dim_skipped: "search_dim h fs d < k \<Longrightarrow> k \<le> d \<Longrightarrow> occupied h fs k"
proof (induction h fs d rule: search_dim.induct)
  case (1 h fs d)
  show ?case
  proof (cases "occupied h fs d")
    case True
    then have eq: "search_dim h fs d = search_dim h fs (d - 1)"
      by (subst search_dim.simps) simp
    show ?thesis
    proof (cases "k = d")
      case True
      with \<open>occupied h fs d\<close> show ?thesis by simp
    next
      case False
      with "1.prems" have "k \<le> d - 1" by simp
      with 1 True eq show ?thesis by simp
    qed
  next
    case False
    then have "search_dim h fs d = d" by (subst search_dim.simps) simp
    with "1.prems" show ?thesis by simp
  qed
qed

lemma gendim_Inr:
  assumes "gendim s (NameRequest name tn) (DimRequest dim t) = Inr (n, d)"
  shows "\<exists>env. current_env s = Inr env \<and> fresh_name name dim = Inr n
           \<and> d = fresh_dim s env dim t \<and> MAX_DIM \<le> d \<and> \<not> occupied (heap s) env d
           \<and> (t = VISIBLE \<longrightarrow> (\<exists>w. first_available_dim s = Some w \<and> w < d))"
  using assms
  by (auto simp: gendim_def Let_def split: sum.splits if_splits option.splits)

lemma lookup_not_found:
  "lookup h env name dim = (n', d', False) \<Longrightarrow>
     n' = name \<and> d' = dim \<and>
     (\<forall>f \<in> set env. \<not> dict_in name (name_to_dim (h f)) \<and> \<not> dict_in dim (dim_to_name (h f)))"
proof (induction env)
  case Nil
  then show ?case by simp
next
  case (Cons f fs)
  have nf: "\<not> dict_in name (name_to_dim (h f))" "\<not> dict_in dim (dim_to_name (h f))"
    using Cons.prems by (auto simp: read_def Let_def split: if_splits)
  then have "read (h f) name dim = (name, dim, False)"
    by (auto simp: read_def dict_get_def dict_in_def split: option.splits)
  with Cons nf show ?case by simp
qed


lemma resolve_found:
  assumes "current_env s = Inr env" and "lookup (heap s) env name dim = (n', d', True)"
  shows "resolve s name dim t = Inr ((n', d'), s)"
  using assms by (simp add: resolve_def)

lemma write_all_total:
  "\<exists>h'. write_all h frames (Some n) (Some d) = Inr h'"
  by (induction frames arbitrary: h) (auto simp: write_frame_def)

lemma resolve_not_found:
  assumes "current_env s = Inr env" and "lookup (heap s) env name dim = (n', d', False)"
  shows "resolve s name dim t =
     (case gendim s (NameRequest name t) (DimRequest dim t) of
        Inl e \<Rightarrow> Inl e
      | Inr (n, d) \<Rightarrow>
        (case write_frames s t of
           Inl e \<Rightarrow> Inl e
         | Inr frames \<Rightarrow>
           (case write_all (heap s) frames (Some n) (Some d) of
              Inl e \<Rightarrow> Inl e
            | Inr h' \<Rightarrow> Inr ((Some n, Some d), s\<lparr>heap := h'\<rparr>))))"
  using assms lookup_not_found [OF assms(2)] by (simp add: resolve_def)

lemma resolve_Inr_stack:
  assumes "resolve s name dim t = Inr (r, s')"
  shows "stack s' = stack s \<and> first_available_dim s' = first_available_dim s"
  using assms
  by (auto simp: resolve_def split: sum.splits prod.splits if_splits)

lemma exec_stack:
  assumes "stack s \<noteq> []" and "exec s x = Inr s'"
  shows "stack s' \<noteq> [] \<and> hd (stack s') = hd (stack s)"
proof (cases x)
  case (Push f)
  with assms show ?thesis by (auto simp: push_def)
next
  case Pop
  with assms have len: "1 < length (stack s)" and s': "stack s' = butlast (stack s)"
    by (auto simp: pop_def split: if_splits)
  from len obtain a b xs where "stack s = a # b # xs"
    by (cases "stack s"; cases "tl (stack s)") auto
  with s' show ?thesis by simp
next
  case (Request na da)
  with assms show ?thesis
    by (auto simp: request_def split: sum.splits prod.splits dest: resolve_Inr_stack)
next
  case (SetFirstAvailableDim d)
  with assms show ?thesis
    by (auto simp: set_first_available_dim_def split: if_splits)
next
  case (Write r n d)
  with assms show ?thesis by (auto split: sum.splits)
next
  case (Free r n d)
  with assms show ?thesis by auto
qed

lemma run_stack:
  "stack s \<noteq> [] \<Longrightarrow> stack (run s ops) \<noteq> [] \<and> hd (stack (run s ops)) = hd (stack s)"
proof (induction ops arbitrary: s)
  case Nil
  then show ?case by simp
next
  case (Cons x xs)
  show ?case
  proof (cases "exec s x")
    case (Inl e)
    with Cons show ?thesis by simp
  next
    case (Inr s')
    with exec_stack [OF Cons.prems Inr] Cons.IH [of s'] show ?thesis by simp
  qed
qed

subsection \<open>The stack\<close>

text \<open>
  Claim C9. \<open>pop\<close> removes and returns the top frame when the stack holds at least two
  frames, and raises the assertion error when it holds exactly one; on a non-empty stack
  that is the only way it fails. So along any sequence of operations, started on a
  non-empty stack, the stack keeps at least one frame and the global frame (index 0)
  stays the same.
\<close>

theorem pop_never_removes_global_frame:
  "(2 \<le> length (stack s) \<longrightarrow> pop s = Inr (last (stack s), s\<lparr>stack := butlast (stack s)\<rparr>))
   \<and> (length (stack s) = 1 \<longrightarrow> pop s = Inl AssertionError)
   \<and> (stack s \<noteq> [] \<and> (\<exists>e. pop s = Inl e) \<longrightarrow> length (stack s) = 1)
   \<and> (stack s \<noteq> [] \<longrightarrow>
        1 \<le> length (stack (run s ops)) \<and> global_frame (run s ops) = global_frame s)"
proof -
  have "stack s \<noteq> [] \<Longrightarrow> global_frame (run s ops) = global_frame s"
    using run_stack [of s ops]
    by (auto simp: global_frame_def split: list.splits)
  moreover have "stack s \<noteq> [] \<Longrightarrow> 1 \<le> length (stack (run s ops))"
    using run_stack [of s ops] by (cases "stack (run s ops)") auto
  moreover have "stack s \<noteq> [] \<Longrightarrow> \<exists>e. pop s = Inl e \<Longrightarrow> length (stack s) = 1"
    by (cases "stack s") (auto simp: pop_def split: if_splits)
  ultimately show ?thesis by (auto simp: pop_def)
qed

theorem pop_never_removes_global_frame_witness:
  "pop (push init 7) = Inr (7, init)
   \<and> pop init = Inl AssertionError
   \<and> stack (run init [Push 7, Pop, Pop, Push 8]) = [0, 8]
   \<and> global_frame (run init [Push 7, Pop, Pop, Push 8]) = global_frame init"
  using pop_never_removes_global_frame [of "push init 7" "[]"]
    pop_never_removes_global_frame [of init "[Push 7, Pop, Pop, Push 8]"]
  by (simp add: push_def init_def pop_def)

lemmas model_defs =
  request_def unpack_def resolve_def current_env_def global_frame_def current_frame_def
  read_def dict_get_def dict_in_def dict_set_def dict_pop_def gendim_def fresh_name_def
  fresh_dim_def occupied_def MAX_DIM_def write_frames_def write_frame_def free_def
  push_def pop_def set_first_available_dim_def init_def empty_frame_def
  str_int_def digit_char_def

lemma request_unpacked:
  "unpack na da = Inr (name, dim, t) \<Longrightarrow> request s na da = resolve s name dim t"
  by (simp add: request_def)

lemma resolve_alloc:
  assumes env: "current_env s = Inr env"
    and nf: "lookup (heap s) env name dim = (n', d', False)"
    and res: "resolve s name dim t = Inr ((rn, rd), s')"
  shows "\<exists>n d frames h'. gendim s (NameRequest name t) (DimRequest dim t) = Inr (n, d)
           \<and> write_frames s t = Inr frames
           \<and> write_all (heap s) frames (Some n) (Some d) = Inr h'
           \<and> rn = Some n \<and> rd = Some d \<and> s' = s\<lparr>heap := h'\<rparr>"
  using res unfolding resolve_not_found [OF env nf]
  by (auto split: sum.splits prod.splits)

subsection \<open>Allocation\<close>

text \<open>
  Claim C3. A dimension handed out by \<open>_gendim\<close> is never below \<open>MAX_DIM\<close>
  (\<open>-25\<close>), whether the dimension was given or searched for; a candidate below
  \<open>MAX_DIM\<close> makes \<open>_gendim\<close> raise the \<open>ValueError\<close>; and a \<open>request\<close>
  whose lookup finds nothing returns a dimension of at least \<open>MAX_DIM\<close>.
\<close>

theorem floor_respected:
  "(gendim s (NameRequest name tn) (DimRequest dim t) = Inr (n, d) \<longrightarrow> MAX_DIM \<le> d)
   \<and> (fresh_name name dim = Inr fname \<and> current_env s = Inr env
        \<and> fresh_dim s env dim t < MAX_DIM
      \<longrightarrow> gendim s (NameRequest name tn) (DimRequest dim t) = Inl ValueError)
   \<and> (unpack na da = Inr (name, dim, t) \<and> current_env s = Inr env
        \<and> lookup (heap s) env name dim = (n', d', False)
        \<and> request s na da = Inr ((rn, rd), s')
      \<longrightarrow> (\<exists>k. rd = Some k \<and> MAX_DIM \<le> k \<and> - 25 \<le> k))"
proof (intro conjI impI)
  assume "gendim s (NameRequest name tn) (DimRequest dim t) = Inr (n, d)"
  from gendim_Inr [OF this] show "MAX_DIM \<le> d" by blast
next
  assume "fresh_name name dim = Inr fname \<and> current_env s = Inr env
        \<and> fresh_dim s env dim t < MAX_DIM"
  then show "gendim s (NameRequest name tn) (DimRequest dim t) = Inl ValueError"
    by (simp add: gendim_def)
next
  assume a: "unpack na da = Inr (name, dim, t) \<and> current_env s = Inr env
        \<and> lookup (heap s) env name dim = (n', d', False)
        \<and> request s na da = Inr ((rn, rd), s')"
  then have u: "unpack na da = Inr (name, dim, t)" and e: "current_env s = Inr env"
    and l: "lookup (heap s) env name dim = (n', d', False)"
    and r: "request s na da = Inr ((rn, rd), s')"
    by simp_all
  from r have "resolve s name dim t = Inr ((rn, rd), s')"
    by (simp add: request_unpacked [OF u])
  from resolve_alloc [OF e l this]
  obtain n d where g: "gendim s (NameRequest name t) (DimRequest dim t) = Inr (n, d)"
    and rd: "rd = Some d" by blast
  from gendim_Inr [OF g] have "MAX_DIM \<le> d" by blast
  with rd show "\<exists>k. rd = Some k \<and> MAX_DIM \<le> k \<and> - 25 \<le> k"
    by (simp add: MAX_DIM_def)
qed

theorem floor_respected_witness:
  "gendim init (NameRequest (Some ''x'') LOCAL) (DimRequest (Some (- 25)) LOCAL) = Inr (''x'', - 25)
   \<and> MAX_DIM \<le> - 25
   \<and> gendim init (NameRequest (Some ''x'') LOCAL) (DimRequest (Some (- 26)) LOCAL) = Inl ValueError
   \<and> fst (projr (request init (NameVal (Some ''x'')) (DimReq (DimRequest None LOCAL))))
       = (Some ''x'', Some (- 1))"
proof -
  have g: "gendim init (NameRequest (Some ''x'') LOCAL) (DimRequest (Some (- 25)) LOCAL) = Inr (''x'', - 25)"
    by (simp add: model_defs)
  have e: "current_env init = Inr [0, 0]"
    by (simp add: model_defs)
  have f: "fresh_name (Some ''x'') (Some (- 26)) = Inr ''x''"
    by (simp add: model_defs)
  have d: "fresh_dim init [0, 0] (Some (- 26)) LOCAL < MAX_DIM"
    by (simp add: model_defs)
  have u: "unpack (NameVal (Some ''x'')) (DimReq (DimRequest None LOCAL)) = Inr (Some ''x'', None, LOCAL)"
    by (simp add: model_defs)
  have l: "lookup (heap init) [0, 0] (Some ''x'') None = (Some ''x'', None, False)"
    by (simp add: model_defs)
  have r: "request init (NameVal (Some ''x'')) (DimReq (DimRequest None LOCAL))
      = Inr ((Some ''x'', Some (- 1)),
             init\<lparr>heap := (heap init)(0 := empty_frame\<lparr>dim_to_name := [(- 1, ''x'')], name_to_dim := [(''x'', - 1)]\<rparr>)\<rparr>)"
    by (simp add: model_defs search_dim.simps)
  from floor_respected [of init "Some ''x''" LOCAL "Some (- 25)" LOCAL "''x''" "- 25"]
    floor_respected [of init "Some ''x''" LOCAL "Some (- 26)" LOCAL _ _ "''x''" "[0, 0]"]
    floor_respected [of init "Some ''x''" LOCAL None LOCAL _ _ _ "[0, 0]"
      "NameVal (Some ''x'')" "DimReq (DimRequest None LOCAL)" "Some ''x''" None
      "Some ''x''" "Some (- 1)"
      "init\<lparr>heap := (heap init)(0 := empty_frame\<lparr>dim_to_name := [(- 1, ''x'')], name_to_dim := [(''x'', - 1)]\<rparr>)\<rparr>"]
    g e f d u l r
  show ?thesis by simp
qed





lemma digit_value_digit_char:
  assumes "k < 10"
  shows "digit_value (digit_char k) = k"
proof -
  from assms have "k \<in> {0, 1, 2, 3, 4, 5, 6, 7, 8, 9}" by auto
  then show ?thesis by (auto simp: digit_char_def digit_value_def)
qed

lemma decimal_value_str_nat: "decimal_value (str_nat n) = n"
proof (induction n rule: str_nat.induct)
  case (1 n)
  show ?case
  proof (cases "n < 10")
    case True
    then show ?thesis
      by (subst str_nat.simps) (simp add: decimal_value_def digit_value_digit_char)
  next
    case False
    with 1 have "decimal_value (str_nat (n div 10)) = n div 10" by simp
    with False show ?thesis
      by (subst str_nat.simps) (simp add: decimal_value_def digit_value_digit_char)
  qed
qed

text \<open>
  Claim C7 says that the default name is \<open>_pyro_dim_\<close> followed by the absolute value
  of the dimension. The name is formatted from \<open>-dim\<close>: for the dimension \<open>5\<close>, which
  \<open>request\<close> accepts, it is \<open>_pyro_dim_-5\<close> and not \<open>_pyro_dim_5\<close>.
\<close>

theorem default_name_from_dim_counterexample:
  "gendim init (NameRequest None LOCAL) (DimRequest (Some 5) LOCAL) = Inr (''_pyro_dim_-5'', 5)
   \<and> map_sum id fst (request init (NameReq (NameRequest None LOCAL)) (DimVal (Some 5)))
       = Inr (Some ''_pyro_dim_-5'', Some 5)
   \<and> ''_pyro_dim_'' @ str_nat (nat \<bar>5\<bar>) = ''_pyro_dim_5''
   \<and> ''_pyro_dim_-5'' \<noteq> ''_pyro_dim_5''"
  by (simp add: model_defs str_nat.simps)

text \<open>
  Claim C7, amended. When \<open>_gendim\<close> returns and no name was supplied, the dimension
  is the one supplied and the name is \<open>_pyro_dim_\<close> followed by the decimal text of the
  negated dimension: the decimal numeral of its absolute value when the dimension is zero
  or negative, and a minus sign followed by the decimal numeral of the dimension when it
  is positive. The name is a function of the dimension alone, so equal dimensions give
  equal names. The same holds for what a \<open>request\<close> without a name returns after a
  lookup that finds nothing.
\<close>

theorem default_name_from_dim:
  "(gendim s (NameRequest None tn) (DimRequest dim t) = Inr (n, d)
      \<longrightarrow> dim = Some d
          \<and> n = (if d \<le> 0 then ''_pyro_dim_'' @ str_nat (nat \<bar>d\<bar>)
                  else ''_pyro_dim_-'' @ str_nat (nat d)))
   \<and> (unpack na da = Inr (None, dim, t) \<and> current_env s = Inr env
        \<and> lookup (heap s) env None dim = (n', d', False)
        \<and> request s na da = Inr ((rn, rd), s')
      \<longrightarrow> (\<exists>k. dim = Some k \<and> rd = Some k
               \<and> rn = Some (if k \<le> 0 then ''_pyro_dim_'' @ str_nat (nat \<bar>k\<bar>)
                             else ''_pyro_dim_-'' @ str_nat (nat k))))
   \<and> decimal_value (str_nat (nat \<bar>d\<bar>)) = nat \<bar>d\<bar>"
proof -
  have key: "dim = Some d
          \<and> n = (if d \<le> 0 then ''_pyro_dim_'' @ str_nat (nat \<bar>d\<bar>)
                  else ''_pyro_dim_-'' @ str_nat (nat d))"
    if g: "gendim s (NameRequest None tn) (DimRequest dim t) = Inr (n, d)" for tn t n d
  proof -
    from gendim_Inr [OF g] obtain env where fn: "fresh_name None dim = Inr n"
      and fd: "d = fresh_dim s env dim t" by blast
    from fn obtain k where k: "dim = Some k" and n: "n = ''_pyro_dim_'' @ str_int (- k)"
      by (auto simp: fresh_name_def split: option.splits)
    from fd k have "d = k" by (simp add: fresh_dim_def)
    with k n show ?thesis by (auto simp: str_int_def)
  qed
  have alloc: "\<exists>k. dim = Some k \<and> rd = Some k
               \<and> rn = Some (if k \<le> 0 then ''_pyro_dim_'' @ str_nat (nat \<bar>k\<bar>)
                             else ''_pyro_dim_-'' @ str_nat (nat k))"
    if u: "unpack na da = Inr (None, dim, t)" and e: "current_env s = Inr env"
      and l: "lookup (heap s) env None dim = (n', d', False)"
      and r: "request s na da = Inr ((rn, rd), s')"
  proof -
    from r have "resolve s None dim t = Inr ((rn, rd), s')"
      by (simp add: request_unpacked [OF u])
    from resolve_alloc [OF e l this]
    obtain n d where g: "gendim s (NameRequest None t) (DimRequest dim t) = Inr (n, d)"
      and rn: "rn = Some n" and rd: "rd = Some d" by blast
    from key [OF g] have k1: "dim = Some d"
      and k2: "n = (if d \<le> 0 then ''_pyro_dim_'' @ str_nat (nat \<bar>d\<bar>)
                  else ''_pyro_dim_-'' @ str_nat (nat d))"
      by blast+
    show ?thesis
      by (rule exI [of _ d]) (use k1 k2 rn rd in blast)
  qed
  from key [of tn t n d] alloc decimal_value_str_nat [of "nat \<bar>d\<bar>"] show ?thesis by blast
qed

theorem default_name_from_dim_witness:
  "gendim init (NameRequest None LOCAL) (DimRequest (Some (- 12)) LOCAL) = Inr (''_pyro_dim_12'', - 12)
   \<and> ''_pyro_dim_12'' = ''_pyro_dim_'' @ str_nat (nat \<bar>- 12\<bar>)
   \<and> gendim init (NameRequest None LOCAL) (DimRequest (Some 5) LOCAL) = Inr (''_pyro_dim_-5'', 5)
   \<and> ''_pyro_dim_-5'' = ''_pyro_dim_-'' @ str_nat (nat 5)
   \<and> request init (NameReq (NameRequest None LOCAL)) (DimVal (Some (- 3)))
      = Inr ((Some ''_pyro_dim_3'', Some (- 3)),
             init\<lparr>heap := (heap init)(0 := empty_frame\<lparr>dim_to_name := [(- 3, ''_pyro_dim_3'')],
                                                        name_to_dim := [(''_pyro_dim_3'', - 3)]\<rparr>)\<rparr>)
   \<and> ''_pyro_dim_3'' = ''_pyro_dim_'' @ str_nat (nat \<bar>- 3\<bar>)
   \<and> decimal_value ''12'' = 12"
proof -
  let ?s' = "init\<lparr>heap := (heap init)(0 := empty_frame\<lparr>dim_to_name := [(- 3, ''_pyro_dim_3'')],
                                                        name_to_dim := [(''_pyro_dim_3'', - 3)]\<rparr>)\<rparr>"
  have g: "gendim init (NameRequest None LOCAL) (DimRequest (Some (- 12)) LOCAL) = Inr (''_pyro_dim_12'', - 12)"
    by (simp add: model_defs str_nat.simps)
  have g5: "gendim init (NameRequest None LOCAL) (DimRequest (Some 5) LOCAL) = Inr (''_pyro_dim_-5'', 5)"
    by (simp add: model_defs str_nat.simps)
  have e: "current_env init = Inr [0, 0]"
    by (simp add: model_defs)
  have u: "unpack (NameReq (NameRequest None LOCAL)) (DimVal (Some (- 3))) = Inr (None, Some (- 3), LOCAL)"
    by (simp add: model_defs)
  have l: "lookup (heap init) [0, 0] None (Some (- 3)) = (None, Some (- 3), False)"
    by (simp add: model_defs)
  have r: "request init (NameReq (NameRequest None LOCAL)) (DimVal (Some (- 3)))
      = Inr ((Some ''_pyro_dim_3'', Some (- 3)), ?s')"
    by (simp add: model_defs str_nat.simps)
  have n12: "str_nat 12 = ''12''"
    by (simp add: str_nat.simps digit_char_def)
  have n3: "str_nat 3 = ''3''"
    by (simp add: str_nat.simps digit_char_def)
  have n5: "str_nat 5 = ''5''"
    by (simp add: str_nat.simps digit_char_def)
  from default_name_from_dim [where s = init and tn = LOCAL and dim = "Some (- 12)" and t = LOCAL
      and n = "''_pyro_dim_12''" and d = "- 12"]
    default_name_from_dim [where s = init and tn = LOCAL and dim = "Some 5" and t = LOCAL
      and n = "''_pyro_dim_-5''" and d = 5]
    default_name_from_dim [where s = init and dim = "Some (- 3)" and t = LOCAL
      and na = "NameReq (NameRequest None LOCAL)" and da = "DimVal (Some (- 3))"
      and env = "[0, 0]" and n' = None and d' = "Some (- 3)"
      and rn = "Some ''_pyro_dim_3''" and rd = "Some (- 3)" and s' = ?s']
    g g5 e u l r n12 n3 n5
  show ?thesis by simp
qed



lemma occupied_iff:
  "occupied h env k \<longleftrightarrow> (\<exists>p \<in> set env. \<exists>nm. map_of (dim_to_name (h p)) k = Some nm)"
  by (auto simp: occupied_def dict_in_def list_ex_iff)

text \<open>
  Claim C2 says that the search for a fresh dimension skips only dimensions that some
  frame of \<open>current_env\<close> maps to a different name, and accepts one mapped to the
  candidate name. The loop tests \<open>fresh_dim in p.dim_to_name\<close> only: after
  \<open>request("x", DimRequest(None))\<close> and \<open>global_frame.free("x", None)\<close> the global
  frame still maps \<open>-1\<close> to \<open>x\<close>, the lookup of \<open>x\<close> finds nothing, and the search for
  \<open>x\<close> skips \<open>-1\<close> and returns \<open>-2\<close>.
\<close>

theorem search_skips_every_occupied_dim_counterexample:
  "map_of (dim_to_name (heap (run init [Request (NameVal (Some ''x'')) (DimReq (DimRequest None LOCAL)),
                                        Free 0 (Some ''x'') None]) 0)) (- 1) = Some ''x''
   \<and> current_env (run init [Request (NameVal (Some ''x'')) (DimReq (DimRequest None LOCAL)),
                            Free 0 (Some ''x'') None]) = Inr [0, 0]
   \<and> gendim (run init [Request (NameVal (Some ''x'')) (DimReq (DimRequest None LOCAL)),
                       Free 0 (Some ''x'') None])
        (NameRequest (Some ''x'') LOCAL) (DimRequest None LOCAL) = Inr (''x'', - 2)
   \<and> map_sum id fst
        (request (run init [Request (NameVal (Some ''x'')) (DimReq (DimRequest None LOCAL)),
                            Free 0 (Some ''x'') None])
           (NameVal (Some ''x'')) (DimReq (DimRequest None LOCAL)))
      = Inr (Some ''x'', Some (- 2))"
  by (simp add: model_defs search_dim.simps)

text \<open>
  Claim C2, amended. With no dimension supplied, the candidate is decremented from the
  start value exactly until no frame of \<open>current_env\<close> has it as a key of
  \<open>dim_to_name\<close>, whatever name it is mapped to: the result is at most the start value,
  no frame maps it to any name, and every dimension between it and the start value is
  mapped by some frame.
\<close>

theorem search_skips_every_occupied_dim:
  "(let start = (case (if t \<noteq> VISIBLE then first_available_dim s else Some (- 1)) of
                   None \<Rightarrow> - 1 | Some d \<Rightarrow> d);
        d = fresh_dim s env None t
    in d \<le> start
       \<and> (\<forall>p \<in> set env. map_of (dim_to_name (heap s p)) d = None)
       \<and> (\<forall>k. d < k \<and> k \<le> start \<longrightarrow>
             (\<exists>p \<in> set env. \<exists>nm. map_of (dim_to_name (heap s p)) k = Some nm)))"
proof -
  define start where
    "start = (case (if t \<noteq> VISIBLE then first_available_dim s else Some (- 1)) of
                None \<Rightarrow> - 1 | Some d \<Rightarrow> d)"
  have d: "fresh_dim s env None t = search_dim (heap s) env start"
    by (simp add: fresh_dim_def start_def)
  have "search_dim (heap s) env start \<le> start"
    by (rule search_dim_le)
  moreover have "\<forall>p \<in> set env. map_of (dim_to_name (heap s p)) (search_dim (heap s) env start) = None"
    using search_dim_free [of "heap s" env start] by (auto simp: occupied_iff)
  moreover have "\<forall>k. search_dim (heap s) env start < k \<and> k \<le> start \<longrightarrow>
             (\<exists>p \<in> set env. \<exists>nm. map_of (dim_to_name (heap s p)) k = Some nm)"
    using search_dim_skipped [of "heap s" env start] by (simp add: occupied_iff)
  ultimately show ?thesis
    unfolding Let_def d start_def [symmetric] by blast
qed

theorem search_skips_every_occupied_dim_witness:
  "fresh_dim (init\<lparr>heap := (heap init)(0 := empty_frame\<lparr>dim_to_name := [(- 1, ''x'')]\<rparr>)\<rparr>)
      [0, 0] None LOCAL = - 2
   \<and> map_of (dim_to_name (heap (init\<lparr>heap := (heap init)(0 := empty_frame\<lparr>dim_to_name := [(- 1, ''x'')]\<rparr>)\<rparr>) 0))
        (- 1) = Some ''x''
   \<and> map_of (dim_to_name (heap (init\<lparr>heap := (heap init)(0 := empty_frame\<lparr>dim_to_name := [(- 1, ''x'')]\<rparr>)\<rparr>) 0))
        (- 2) = None"
  using search_skips_every_occupied_dim
    [where s = "init\<lparr>heap := (heap init)(0 := empty_frame\<lparr>dim_to_name := [(- 1, ''x'')]\<rparr>)\<rparr>"
       and env = "[0, 0]" and t = LOCAL]
  by (simp add: model_defs search_dim.simps)

subsection \<open>\<open>push\<close> and \<open>pop\<close>\<close>

text \<open>
  Claim C10 says that after \<open>push(f)\<close> and \<open>pop()\<close> the bindings of \<open>f\<close> are no
  longer part of \<open>current_env\<close>, for every frame \<open>f\<close>. Pushing the global frame
  itself (which binds \<open>x\<close>) and popping it leaves \<open>current_env\<close> with that frame in
  it, and \<open>x\<close> is still resolved.
\<close>

theorem push_pop_round_trip_counterexample:
  "pop (push (run init [Request (NameVal (Some ''x'')) (DimReq (DimRequest None LOCAL))]) 0)
     = Inr (0, run init [Request (NameVal (Some ''x'')) (DimReq (DimRequest None LOCAL))])
   \<and> current_env (run init [Request (NameVal (Some ''x'')) (DimReq (DimRequest None LOCAL))])
       = Inr [0, 0]
   \<and> map_of (name_to_dim (heap (run init [Request (NameVal (Some ''x'')) (DimReq (DimRequest None LOCAL))]) 0))
        ''x'' = Some (- 1)
   \<and> map_sum id fst
        (request (run init [Request (NameVal (Some ''x'')) (DimReq (DimRequest None LOCAL))])
           (NameVal (Some ''x'')) (DimReq (DimRequest None LOCAL)))
      = Inr (Some ''x'', Some (- 1))"
  by (simp add: model_defs search_dim.simps)

text \<open>
  Claim C10, amended. On a non-empty stack and for every frame \<open>f\<close>: after \<open>push(f)\<close>
  the current frame is \<open>f\<close>; \<open>pop()\<close> then returns \<open>f\<close> and leaves the allocator
  exactly as it was before the push, so the current frame is the one from before; and
  when \<open>f\<close> was not part of \<open>current_env\<close> before the push it is not part of it
  afterwards.
\<close>

theorem push_pop_round_trip:
  assumes "stack s \<noteq> []"
  shows "current_frame (push s f) = Inr f
    \<and> pop (push s f) = Inr (f, s)
    \<and> current_frame s = Inr (last (stack s))
    \<and> (\<forall>env. current_env s = Inr env \<and> f \<notin> set env \<longrightarrow>
          (\<exists>s' env'. pop (push s f) = Inr (f, s') \<and> current_frame s' = current_frame s
              \<and> current_env s' = Inr env' \<and> f \<notin> set env'))"
proof -
  have cf: "current_frame t = Inr (last (stack t))" if "stack t \<noteq> []" for t :: DimStack
    using that by (cases "stack t") (simp_all add: current_frame_def)
  have 1: "current_frame (push s f) = Inr f"
    using cf [of "push s f"] by (simp add: push_def)
  have 2: "pop (push s f) = Inr (f, s)"
    using assms by (cases "stack s") (simp_all add: pop_def push_def)
  have 3: "current_frame s = Inr (last (stack s))"
    using assms by (rule cf)
  from 1 2 3 show ?thesis by simp
qed

theorem push_pop_round_trip_witness:
  "stack init \<noteq> []
   \<and> current_frame (push init 5) = Inr 5
   \<and> pop (push init 5) = Inr (5, init)
   \<and> current_frame init = Inr 0
   \<and> current_env init = Inr [0, 0]
   \<and> (5::nat) \<notin> set [0, 0]"
proof -
  have h: "stack init \<noteq> []" by (simp add: init_def)
  have e: "current_env init = Inr [0, 0]" by (simp add: model_defs)
  from push_pop_round_trip [OF h, of 5] h e show ?thesis
    by (simp add: init_def)
qed

lemma write_frame_Some:
  "write_frame f (Some n) (Some d) =
     Inr (f\<lparr>dim_to_name := dict_set (dim_to_name f) d n,
            name_to_dim := dict_set (name_to_dim f) n d\<rparr>)"
  by (simp add: write_frame_def)

lemma write_frame_idem:
  assumes "write_frame f (Some n) (Some d) = Inr f'"
  shows "write_frame f' (Some n) (Some d) = Inr f'"
  using assms by (auto simp: write_frame_def dict_set_def)

lemma write_all_effect:
  "write_all h frames (Some n) (Some d) = Inr h' \<Longrightarrow>
     (\<forall>r. r \<notin> set frames \<longrightarrow> h' r = h r)
     \<and> (\<forall>r \<in> set frames. write_frame (h r) (Some n) (Some d) = Inr (h' r))"
proof (induction frames arbitrary: h)
  case Nil
  then show ?case by simp
next
  case (Cons a frames)
  obtain f' where f': "write_frame (h a) (Some n) (Some d) = Inr f'"
    by (simp add: write_frame_Some)
  with Cons.prems have rest: "write_all (h(a := f')) frames (Some n) (Some d) = Inr h'"
    by simp
  note ih = Cons.IH [OF rest]
  have a: "write_frame (h a) (Some n) (Some d) = Inr (h' a)"
  proof (cases "a \<in> set frames")
    case True
    with ih have "write_frame f' (Some n) (Some d) = Inr (h' a)" by auto
    with write_frame_idem [OF f'] f' show ?thesis by simp
  next
    case False
    with ih have "h' a = f'" by simp
    with f' show ?thesis by simp
  qed
  have others: "write_frame (h r) (Some n) (Some d) = Inr (h' r)" if "r \<in> set frames" for r
  proof (cases "r = a")
    case True
    with a show ?thesis by simp
  next
    case False
    with ih that show ?thesis by auto
  qed
  have out: "h' r = h r" if "r \<notin> set (a # frames)" for r
    using ih that by auto
  from a others out show ?case by auto
qed

lemma write_frames_in_env:
  assumes "current_env s = Inr env" and "write_frames s t = Inr frames"
  shows "set frames \<subseteq> set env \<and> frames \<noteq> []"
  using assms
  by (auto simp: current_env_def write_frames_def split: sum.splits if_splits)

lemma write_frames_eq:
  assumes "write_frames s t = Inr frames"
  shows "\<exists>g c. global_frame s = Inr g \<and> current_frame s = Inr c
           \<and> frames = (if t \<noteq> LOCAL then [g]
                        else c # (if keep (heap s c) then parents (heap s c) else []))"
  using assms
  by (cases "stack s") (auto simp: write_frames_def global_frame_def current_frame_def split: if_splits)

subsection \<open>What \<open>request\<close> changes\<close>

text \<open>
  Claim C6. When the lookup of a \<open>request\<close> succeeds, nothing changes. When it fails
  and the request returns, the frames written are fixed by the policy: the global frame
  alone under \<open>GLOBAL\<close> and \<open>VISIBLE\<close>; under \<open>LOCAL\<close> the current frame and, when its
  \<open>keep\<close> is set, every frame of its \<open>parents\<close>. Each of them gets the new pair in
  its two dictionaries (and so differs from before), every other frame is as before
  (under \<open>GLOBAL\<close> and \<open>VISIBLE\<close> also the current frame, unless it is the global one),
  and the stack, the watermark and \<open>outermost\<close> are untouched.
\<close>

theorem request_frame_effect:
  assumes "unpack na da = Inr (name, dim, t)"
    and "current_env s = Inr env"
    and "lookup (heap s) env name dim = (n', d', found)"
    and "request s na da = Inr (res, s')"
  shows "(found \<longrightarrow> s' = s)
    \<and> (\<not> found \<longrightarrow>
         (\<exists>n d g c. res = (Some n, Some d) \<and> global_frame s = Inr g \<and> current_frame s = Inr c
            \<and> (\<forall>r \<in> set (if t \<noteq> LOCAL then [g]
                             else c # (if keep (heap s c) then parents (heap s c) else [])).
                  heap s' r = (heap s r)\<lparr>dim_to_name := dict_set (dim_to_name (heap s r)) d n,
                                           name_to_dim := dict_set (name_to_dim (heap s r)) n d\<rparr>
                  \<and> heap s' r \<noteq> heap s r)
            \<and> (\<forall>r. r \<notin> set (if t \<noteq> LOCAL then [g]
                                else c # (if keep (heap s c) then parents (heap s c) else []))
                  \<longrightarrow> heap s' r = heap s r)
            \<and> stack s' = stack s \<and> first_available_dim s' = first_available_dim s
            \<and> outermost s' = outermost s))"
proof (cases found)
  case True
  with assms(3) have "lookup (heap s) env name dim = (n', d', True)" by simp
  from resolve_found [OF assms(2) this, of t] assms(4) True show ?thesis
    by (simp add: request_unpacked [OF assms(1)])
next
  case False
  with assms(3) have nf: "lookup (heap s) env name dim = (n', d', False)" by simp
  from assms(4) have "resolve s name dim t = Inr (res, s')"
    by (simp add: request_unpacked [OF assms(1)])
  then have "resolve s name dim t = Inr ((fst res, snd res), s')" by simp
  from resolve_alloc [OF assms(2) nf this]
  obtain n d frames h' where g: "gendim s (NameRequest name t) (DimRequest dim t) = Inr (n, d)"
    and wf: "write_frames s t = Inr frames"
    and wa: "write_all (heap s) frames (Some n) (Some d) = Inr h'"
    and res: "res = (Some n, Some d)" and s': "s' = s\<lparr>heap := h'\<rparr>"
    by (cases res) auto
  from write_frames_eq [OF wf] obtain g0 c where gf: "global_frame s = Inr g0"
    and cf: "current_frame s = Inr c"
    and fr: "frames = (if t \<noteq> LOCAL then [g0]
                        else c # (if keep (heap s c) then parents (heap s c) else []))"
    by blast
  from gendim_Inr [OF g] assms(2) have free: "\<not> occupied (heap s) env d" by auto
  note eff = write_all_effect [OF wa]
  have written: "heap s' r = (heap s r)\<lparr>dim_to_name := dict_set (dim_to_name (heap s r)) d n,
                                           name_to_dim := dict_set (name_to_dim (heap s r)) n d\<rparr>
                  \<and> heap s' r \<noteq> heap s r" if r: "r \<in> set frames" for r
  proof -
    from eff r have eq: "heap s' r = (heap s r)\<lparr>dim_to_name := dict_set (dim_to_name (heap s r)) d n,
                                           name_to_dim := dict_set (name_to_dim (heap s r)) n d\<rparr>"
      by (simp add: s' write_frame_Some)
    from r write_frames_in_env [OF assms(2) wf] have "r \<in> set env" by auto
    with free have "map_of (dim_to_name (heap s r)) d = None"
      by (auto simp: occupied_def list_ex_iff dict_in_def)
    moreover from eq have "map_of (dim_to_name (heap s' r)) d = Some n"
      by (simp add: dict_set_def update_conv')
    ultimately have "heap s' r \<noteq> heap s r" by auto
    with eq show ?thesis by simp
  qed
  have kept: "heap s' r = heap s r" if "r \<notin> set frames" for r
    using eff that by (simp add: s')
  have "res = (Some n, Some d) \<and> global_frame s = Inr g0 \<and> current_frame s = Inr c
            \<and> (\<forall>r \<in> set (if t \<noteq> LOCAL then [g0]
                             else c # (if keep (heap s c) then parents (heap s c) else [])).
                  heap s' r = (heap s r)\<lparr>dim_to_name := dict_set (dim_to_name (heap s r)) d n,
                                           name_to_dim := dict_set (name_to_dim (heap s r)) n d\<rparr>
                  \<and> heap s' r \<noteq> heap s r)
            \<and> (\<forall>r. r \<notin> set (if t \<noteq> LOCAL then [g0]
                                else c # (if keep (heap s c) then parents (heap s c) else []))
                  \<longrightarrow> heap s' r = heap s r)
            \<and> stack s' = stack s \<and> first_available_dim s' = first_available_dim s
            \<and> outermost s' = outermost s"
    unfolding fr [symmetric]
  proof (intro conjI)
    show "\<forall>r \<in> set frames.
            heap s' r = (heap s r)\<lparr>dim_to_name := dict_set (dim_to_name (heap s r)) d n,
                                     name_to_dim := dict_set (name_to_dim (heap s r)) n d\<rparr>
            \<and> heap s' r \<noteq> heap s r"
      using written by blast
    show "\<forall>r. r \<notin> set frames \<longrightarrow> heap s' r = heap s r"
      using kept by blast
  qed (simp_all add: res gf cf s')
  then have "\<exists>n d g c. res = (Some n, Some d) \<and> global_frame s = Inr g \<and> current_frame s = Inr c
            \<and> (\<forall>r \<in> set (if t \<noteq> LOCAL then [g]
                             else c # (if keep (heap s c) then parents (heap s c) else [])).
                  heap s' r = (heap s r)\<lparr>dim_to_name := dict_set (dim_to_name (heap s r)) d n,
                                           name_to_dim := dict_set (name_to_dim (heap s r)) n d\<rparr>
                  \<and> heap s' r \<noteq> heap s r)
            \<and> (\<forall>r. r \<notin> set (if t \<noteq> LOCAL then [g]
                                else c # (if keep (heap s c) then parents (heap s c) else []))
                  \<longrightarrow> heap s' r = heap s r)
            \<and> stack s' = stack s \<and> first_available_dim s' = first_available_dim s
            \<and> outermost s' = outermost s"
    by (intro exI)
  with False show ?thesis by simp
qed

theorem request_frame_effect_witness:
  "request nested (NameVal (Some ''x'')) (DimReq (DimRequest None LOCAL))
     = Inr ((Some ''x'', Some (- 1)), nested_x)
   \<and> heap nested_x 0 = heap nested 0 \<and> heap nested_x 1 \<noteq> heap nested 1
   \<and> heap nested_x 2 \<noteq> heap nested 2 \<and> heap nested_x 3 = heap nested 3
   \<and> request nested_x (NameVal (Some ''x'')) (DimReq (DimRequest None LOCAL))
     = Inr ((Some ''x'', Some (- 1)), nested_x)
   \<and> request nested (NameVal (Some ''y'')) (DimReq (DimRequest None GLOBAL))
     = Inr ((Some ''y'', Some (- 1)), nested_y)
   \<and> heap nested_y 0 \<noteq> heap nested 0 \<and> heap nested_y 1 = heap nested 1"
proof -
  have u: "unpack (NameVal (Some ''x'')) (DimReq (DimRequest None LOCAL)) = Inr (Some ''x'', None, LOCAL)"
    by (simp add: model_defs)
  have uy: "unpack (NameVal (Some ''y'')) (DimReq (DimRequest None GLOBAL)) = Inr (Some ''y'', None, GLOBAL)"
    by (simp add: model_defs)
  have e: "current_env nested = Inr [0, 1, 2]"
    by (simp add: model_defs nested_def)
  have e': "current_env nested_x = Inr [0, 1, 2]"
    by (simp add: model_defs nested_def nested_x_def bound_x_def)
  have l: "lookup (heap nested) [0, 1, 2] (Some ''x'') None = (Some ''x'', None, False)"
    by (simp add: model_defs nested_def)
  have ly: "lookup (heap nested) [0, 1, 2] (Some ''y'') None = (Some ''y'', None, False)"
    by (simp add: model_defs nested_def)
  have l': "lookup (heap nested_x) [0, 1, 2] (Some ''x'') None = (Some ''x'', Some (- 1), True)"
    by (simp add: model_defs nested_def nested_x_def bound_x_def)
  have r: "request nested (NameVal (Some ''x'')) (DimReq (DimRequest None LOCAL))
     = Inr ((Some ''x'', Some (- 1)), nested_x)"
    by (simp add: model_defs nested_def nested_x_def bound_x_def search_dim.simps)
  have ry: "request nested (NameVal (Some ''y'')) (DimReq (DimRequest None GLOBAL))
     = Inr ((Some ''y'', Some (- 1)), nested_y)"
    by (simp add: model_defs nested_def nested_y_def search_dim.simps)
  have r': "request nested_x (NameVal (Some ''x'')) (DimReq (DimRequest None LOCAL))
     = Inr ((Some ''x'', Some (- 1)), nested_x)"
    by (simp add: model_defs nested_def nested_x_def bound_x_def)
  have gc: "global_frame nested = Inr 0" "current_frame nested = Inr 1"
    "keep (heap nested 1)" "parents (heap nested 1) = [2]"
    by (simp_all add: model_defs nested_def)
  from request_frame_effect [OF u e l r] request_frame_effect [OF u e' l' r']
    request_frame_effect [OF uy e ly ry] r r' ry gc
  show ?thesis by auto
qed

lemma lookup_finds_name:
  assumes "\<forall>f \<in> set env. map_of (name_to_dim (h f)) x = None \<or> map_of (name_to_dim (h f)) x = Some d"
    and "\<exists>f \<in> set env. map_of (name_to_dim (h f)) x = Some d"
  shows "lookup h env (Some x) None = (Some x, Some d, True)"
  using assms
proof (induction env)
  case Nil
  then show ?case by simp
next
  case (Cons f fs)
  show ?case
  proof (cases "map_of (name_to_dim (h f)) x")
    case None
    then have "read (h f) (Some x) None = (Some x, None, False)"
      by (simp add: read_def dict_get_def dict_in_def)
    moreover from None Cons.prems have "\<exists>f \<in> set fs. map_of (name_to_dim (h f)) x = Some d"
      by auto
    moreover from Cons.prems
    have "\<forall>f \<in> set fs. map_of (name_to_dim (h f)) x = None \<or> map_of (name_to_dim (h f)) x = Some d"
      by simp
    ultimately show ?thesis using Cons.IH by simp
  next
    case (Some k)
    with Cons.prems have "k = d" by auto
    with Some show ?thesis
      by (simp add: read_def dict_get_def dict_in_def)
  qed
qed

lemma write_all_written:
  assumes "write_all h frames (Some n) (Some d) = Inr h'" and "r \<in> set frames"
  shows "h' r = (h r)\<lparr>dim_to_name := dict_set (dim_to_name (h r)) d n,
                        name_to_dim := dict_set (name_to_dim (h r)) n d\<rparr>"
proof -
  from write_all_effect [OF assms(1)] assms(2)
  have "write_frame (h r) (Some n) (Some d) = Inr (h' r)" by blast
  then show ?thesis unfolding write_frame_Some by simp
qed

lemma write_all_links:
  assumes "write_all h frames (Some n) (Some d) = Inr h'"
  shows "parents (h' r) = parents (h r) \<and> iter_parents (h' r) = iter_parents (h r)
           \<and> keep (h' r) = keep (h r)"
proof (cases "r \<in> set frames")
  case True
  from write_all_written [OF assms True] show ?thesis by simp
next
  case False
  with write_all_effect [OF assms] show ?thesis by simp
qed

text \<open>
  Claim C5. A request that gives a name and no dimension, repeated on the state the first
  call left behind, returns the same pair and leaves that state as it is; the second call
  finds the pair by lookup in \<open>current_env\<close>.
\<close>

theorem request_idempotent:
  assumes "unpack na da = Inr (name, None, t)"
    and "request s na da = Inr (res, s')"
  shows "request s' na da = Inr (res, s')
    \<and> (\<exists>env. current_env s' = Inr env
           \<and> lookup (heap s') env name None = (fst res, snd res, True))"
proof -
  from assms have rs: "resolve s name None t = Inr (res, s')"
    by (simp add: request_unpacked)
  then obtain env where e: "current_env s = Inr env"
    by (auto simp: resolve_def split: sum.splits)
  obtain n' d' found where l: "lookup (heap s) env name None = (n', d', found)"
    by (cases "lookup (heap s) env name None") auto
  show ?thesis
  proof (cases found)
    case True
    with l have lt: "lookup (heap s) env name None = (n', d', True)" by simp
    from resolve_found [OF e lt, of t] rs have "res = (n', d')" and "s' = s" by simp_all
    with e lt rs show ?thesis
      by (simp add: request_unpacked [OF assms(1)])
  next
    case False
    with l have nf: "lookup (heap s) env name None = (n', d', False)" by simp
    from rs have "resolve s name None t = Inr ((fst res, snd res), s')" by simp
    from resolve_alloc [OF e nf this]
    obtain n d frames h' where g: "gendim s (NameRequest name t) (DimRequest None t) = Inr (n, d)"
      and wf: "write_frames s t = Inr frames"
      and wa: "write_all (heap s) frames (Some n) (Some d) = Inr h'"
      and res: "res = (Some n, Some d)" and s': "s' = s\<lparr>heap := h'\<rparr>"
      by (cases res) auto
    from gendim_Inr [OF g] have "fresh_name name None = Inr n" by blast
    then have name: "name = Some n"
      by (auto simp: fresh_name_def split: option.splits)
    note eff = write_all_effect [OF wa]
    have e': "current_env s' = Inr env"
      using e write_all_links [OF wa]
      by (auto simp: s' current_env_def global_frame_def current_frame_def split: sum.splits list.splits)
    from lookup_not_found [OF nf] name
    have unbound: "\<forall>f \<in> set env. map_of (name_to_dim (heap s f)) n = None"
      by (simp add: dict_in_def)
    have bound: "map_of (name_to_dim (h' r)) n = Some d" if "r \<in> set frames" for r
      using write_all_written [OF wa that] by (simp add: dict_set_def update_conv')
    have 1: "\<forall>f \<in> set env. map_of (name_to_dim (h' f)) n = None \<or> map_of (name_to_dim (h' f)) n = Some d"
    proof
      fix f assume f: "f \<in> set env"
      show "map_of (name_to_dim (h' f)) n = None \<or> map_of (name_to_dim (h' f)) n = Some d"
      proof (cases "f \<in> set frames")
        case True
        then show ?thesis by (simp add: bound)
      next
        case False
        with eff have "h' f = heap s f" by simp
        with unbound f show ?thesis by simp
      qed
    qed
    from write_frames_in_env [OF e wf] obtain r where "r \<in> set frames" and "r \<in> set env"
      by (cases frames) auto
    with bound have 2: "\<exists>f \<in> set env. map_of (name_to_dim (h' f)) n = Some d" by blast
    from lookup_finds_name [OF 1 2]
    have lt: "lookup (heap s') env (Some n) None = (Some n, Some d, True)"
      by (simp add: s')
    from resolve_found [OF e' lt, of t] have "request s' na da = Inr (res, s')"
      by (simp add: request_unpacked [OF assms(1)] name res)
    with e' lt show ?thesis by (simp add: name res)
  qed
qed

theorem request_idempotent_witness:
  "unpack (NameVal (Some ''x'')) (DimReq (DimRequest None LOCAL)) = Inr (Some ''x'', None, LOCAL)
   \<and> request nested (NameVal (Some ''x'')) (DimReq (DimRequest None LOCAL))
       = Inr ((Some ''x'', Some (- 1)), nested_x)
   \<and> request nested_x (NameVal (Some ''x'')) (DimReq (DimRequest None LOCAL))
       = Inr ((Some ''x'', Some (- 1)), nested_x)"
proof -
  have u: "unpack (NameVal (Some ''x'')) (DimReq (DimRequest None LOCAL)) = Inr (Some ''x'', None, LOCAL)"
    by (simp add: model_defs)
  have r: "request nested (NameVal (Some ''x'')) (DimReq (DimRequest None LOCAL))
     = Inr ((Some ''x'', Some (- 1)), nested_x)"
    by (simp add: model_defs nested_def nested_x_def bound_x_def search_dim.simps)
  from request_idempotent [OF u r] u r show ?thesis by blast
qed

subsection \<open>The two dictionaries of a frame\<close>

text \<open>
  Claim C1 says that \<open>name_to_dim\<close> and \<open>dim_to_name\<close> of every frame are exact
  inverses at every point of every sequence of operations, and that \<open>write\<close> restores
  this when the name or the dimension was bound to a different partner. \<open>write\<close> only
  assigns the two entries: after \<open>write("x", -1)\<close> and \<open>write("x", -2)\<close> on the global
  frame, \<open>dim_to_name\<close> still maps \<open>-1\<close> to \<open>x\<close> while \<open>name_to_dim\<close> maps \<open>x\<close> to
  \<open>-2\<close>. Two requests alone do the same: the name \<open>_pyro_dim_2\<close> gets \<open>-1\<close>, and then
  the dimension \<open>-2\<close>, requested without a name, gets the default name \<open>_pyro_dim_2\<close>.
\<close>

theorem bijection_counterexample:
  "bijective (heap init 0)
   \<and> \<not> bijective (heap (run init [Write 0 (Some ''x'') (Some (- 1)),
                                   Write 0 (Some ''x'') (Some (- 2))]) 0)
   \<and> \<not> bijective (heap (run init [Request (NameVal (Some ''_pyro_dim_2'')) (DimReq (DimRequest None LOCAL)),
                                   Request (NameReq (NameRequest None LOCAL)) (DimVal (Some (- 2)))]) 0)"
proof -
  have 0: "bijective (heap init 0)"
    by (simp add: bijective_def init_def empty_frame_def)
  have w: "heap (run init [Write 0 (Some ''x'') (Some (- 1)), Write 0 (Some ''x'') (Some (- 2))]) 0
      = empty_frame\<lparr>dim_to_name := [(- 1, ''x''), (- 2, ''x'')], name_to_dim := [(''x'', - 2)]\<rparr>"
    by (simp add: model_defs)
  have r: "heap (run init [Request (NameVal (Some ''_pyro_dim_2'')) (DimReq (DimRequest None LOCAL)),
                           Request (NameReq (NameRequest None LOCAL)) (DimVal (Some (- 2)))]) 0
      = empty_frame\<lparr>dim_to_name := [(- 1, ''_pyro_dim_2''), (- 2, ''_pyro_dim_2'')],
                     name_to_dim := [(''_pyro_dim_2'', - 2)]\<rparr>"
    by (simp add: model_defs search_dim.simps str_nat.simps)
  have nb: "\<not> bijective (empty_frame\<lparr>dim_to_name := [(- 1, x), (- 2, x)], name_to_dim := [(x, - 2)]\<rparr>)"
    for x :: string
  proof
    assume b: "bijective (empty_frame\<lparr>dim_to_name := [(- 1, x), (- 2, x)], name_to_dim := [(x, - 2)]\<rparr>)"
    have "map_of (name_to_dim (empty_frame\<lparr>dim_to_name := [(- 1, x), (- 2, x)],
                                            name_to_dim := [(x, - 2)]\<rparr>)) x = Some (- 1)
      \<longleftrightarrow> map_of (dim_to_name (empty_frame\<lparr>dim_to_name := [(- 1, x), (- 2, x)],
                                               name_to_dim := [(x, - 2)]\<rparr>)) (- 1) = Some x"
      using b unfolding bijective_def by blast
    then show False by simp
  qed
  from 0 w r nb show ?thesis by simp
qed

lemma bijective_write:
  assumes "bijective f"
    and "map_of (name_to_dim f) n = None \<or> map_of (name_to_dim f) n = Some d"
    and "map_of (dim_to_name f) d = None \<or> map_of (dim_to_name f) d = Some n"
  shows "bijective (f\<lparr>dim_to_name := dict_set (dim_to_name f) d n,
                      name_to_dim := dict_set (name_to_dim f) n d\<rparr>)"
  unfolding bijective_def
proof (intro allI)
  fix n' d'
  from assms(1) have b: "map_of (name_to_dim f) n' = Some d' \<longleftrightarrow> map_of (dim_to_name f) d' = Some n'"
    and bn: "map_of (name_to_dim f) n = Some d' \<longleftrightarrow> map_of (dim_to_name f) d' = Some n"
    and bd: "map_of (name_to_dim f) n' = Some d \<longleftrightarrow> map_of (dim_to_name f) d = Some n'"
    by (simp_all add: bijective_def)
  from b bn bd assms(2,3)
  show "map_of (name_to_dim (f\<lparr>dim_to_name := dict_set (dim_to_name f) d n,
                                 name_to_dim := dict_set (name_to_dim f) n d\<rparr>)) n' = Some d'
      \<longleftrightarrow> map_of (dim_to_name (f\<lparr>dim_to_name := dict_set (dim_to_name f) d n,
                                 name_to_dim := dict_set (name_to_dim f) n d\<rparr>)) d' = Some n'"
    by (auto simp: dict_set_def update_conv')
qed

lemma bijective_free:
  assumes "bijective f"
    and "case name of None \<Rightarrow> True
         | Some n \<Rightarrow> (case map_of (name_to_dim f) n of None \<Rightarrow> True | Some d \<Rightarrow> dim = Some d)"
    and "case dim of None \<Rightarrow> True
         | Some d \<Rightarrow> (case map_of (dim_to_name f) d of None \<Rightarrow> True | Some n \<Rightarrow> name = Some n)"
  shows "bijective (snd (free f name dim))"
  unfolding bijective_def
proof (intro allI)
  fix n' d'
  from assms(1) have b: "map_of (name_to_dim f) n' = Some d' \<longleftrightarrow> map_of (dim_to_name f) d' = Some n'"
    by (simp add: bijective_def)
  from b assms(2,3)
  show "map_of (name_to_dim (snd (free f name dim))) n' = Some d'
      \<longleftrightarrow> map_of (dim_to_name (snd (free f name dim))) d' = Some n'"
    by (auto simp: free_def dict_pop_def delete_conv' split: option.splits)
qed

lemma resolve_bijective:
  assumes bij: "\<forall>r. bijective (heap s r)"
    and ben: "\<And>env n' d' n d frames r.
        name = None \<Longrightarrow> current_env s = Inr env
        \<Longrightarrow> lookup (heap s) env name dim = (n', d', False)
        \<Longrightarrow> gendim s (NameRequest name t) (DimRequest dim t) = Inr (n, d)
        \<Longrightarrow> write_frames s t = Inr frames \<Longrightarrow> r \<in> set frames
        \<Longrightarrow> map_of (name_to_dim (heap s r)) n = None \<or> map_of (name_to_dim (heap s r)) n = Some d"
    and res: "resolve s name dim t = Inr (res, s')"
  shows "\<forall>r. bijective (heap s' r)"
proof -
  from res obtain env where e: "current_env s = Inr env"
    by (auto simp: resolve_def split: sum.splits)
  obtain n' d' found where l: "lookup (heap s) env name dim = (n', d', found)"
    by (cases "lookup (heap s) env name dim") auto
  show ?thesis
  proof (cases found)
    case True
    with l resolve_found [OF e, of name dim n' d' t] res bij show ?thesis by simp
  next
    case False
    with l have nf: "lookup (heap s) env name dim = (n', d', False)" by simp
    from res have "resolve s name dim t = Inr ((fst res, snd res), s')" by simp
    from resolve_alloc [OF e nf this]
    obtain n d frames h' where g: "gendim s (NameRequest name t) (DimRequest dim t) = Inr (n, d)"
      and wf: "write_frames s t = Inr frames"
      and wa: "write_all (heap s) frames (Some n) (Some d) = Inr h'"
      and s': "s' = s\<lparr>heap := h'\<rparr>"
      by auto
    from gendim_Inr [OF g] e have fn: "fresh_name name dim = Inr n"
      and fd: "d = fresh_dim s env dim t" and free: "\<not> occupied (heap s) env d"
      by auto
    have n_ok: "map_of (name_to_dim (heap s r)) n = None \<or> map_of (name_to_dim (heap s r)) n = Some d"
      if r: "r \<in> set frames" for r
    proof (cases name)
      case None
      from ben [OF None e nf g wf r] show ?thesis .
    next
      case (Some x)
      with fn have "n = x" by (simp add: fresh_name_def)
      moreover from r write_frames_in_env [OF e wf] have "r \<in> set env" by auto
      ultimately show ?thesis
        using lookup_not_found [OF nf] Some by (simp add: dict_in_def)
    qed
    have d_unbound: "map_of (dim_to_name (heap s r)) d = None" if r: "r \<in> set env" for r
      using free r by (auto simp: occupied_def list_ex_iff dict_in_def)
    show ?thesis
    proof
      fix r
      show "bijective (heap s' r)"
      proof (cases "r \<in> set frames")
        case True
        with write_frames_in_env [OF e wf] have "r \<in> set env" by auto
        with bijective_write [where f = "heap s r" and n = n and d = d] bij n_ok [OF True] d_unbound
        show ?thesis by (simp add: s' write_all_written [OF wa True])
      next
        case False
        with write_all_effect [OF wa] bij show ?thesis by (simp add: s')
      qed
    qed
  qed
qed

lemma exec_bijective:
  assumes bij: "\<forall>r. bijective (heap s r)" and ben: "benign s x" and ex: "exec s x = Inr s'"
  shows "\<forall>r. bijective (heap s' r)"
proof (cases x)
  case (Push f)
  with bij ex show ?thesis by (auto simp: push_def)
next
  case Pop
  with bij ex show ?thesis by (auto simp: pop_def split: if_splits)
next
  case (Request na da)
  with ex obtain name dim t res where u: "unpack na da = Inr (name, dim, t)"
    and r: "resolve s name dim t = Inr (res, s')"
    by (auto simp: request_def split: sum.splits prod.splits)
  have "map_of (name_to_dim (heap s q)) n = None \<or> map_of (name_to_dim (heap s q)) n = Some d"
    if "name = None" and "current_env s = Inr env"
      and "lookup (heap s) env name dim = (n', d', False)"
      and g: "gendim s (NameRequest name t) (DimRequest dim t) = Inr (n, d)"
      and "write_frames s t = Inr frames" and "q \<in> set frames"
    for env n' d' n d frames q
  proof (cases dim)
    case None
    with gendim_Inr [OF g] that(1) show ?thesis by (auto simp: fresh_name_def)
  next
    case (Some k)
    with ben Request u that show ?thesis by (auto simp: list_all_iff)
  qed
  from resolve_bijective [OF bij this r] show ?thesis .
next
  case (SetFirstAvailableDim d)
  with bij ex show ?thesis by (auto simp: set_first_available_dim_def split: if_splits)
next
  case (Write r n d)
  show ?thesis
  proof (cases n)
    case None
    with Write ex show ?thesis by (simp add: write_frame_def)
  next
    case n: (Some nn)
    show ?thesis
    proof (cases d)
      case None
      with Write ex n show ?thesis by (simp add: write_frame_def)
    next
      case d: (Some dd)
      from Write n d ex have s': "s' = s\<lparr>heap := (heap s)(r :=
          (heap s r)\<lparr>dim_to_name := dict_set (dim_to_name (heap s r)) dd nn,
                     name_to_dim := dict_set (name_to_dim (heap s r)) nn dd\<rparr>)\<rparr>"
        by (auto simp: write_frame_Some)
      from ben Write n d bij bijective_write [where f = "heap s r" and n = nn and d = dd]
      have "bijective ((heap s r)\<lparr>dim_to_name := dict_set (dim_to_name (heap s r)) dd nn,
                     name_to_dim := dict_set (name_to_dim (heap s r)) nn dd\<rparr>)"
        by simp
      with bij show ?thesis by (simp add: s')
    qed
  qed
next
  case (Free r n d)
  with ben bij bijective_free [where f = "heap s r" and name = n and dim = d]
  have "bijective (snd (free (heap s r) n d))" by simp
  with Free ex bij show ?thesis by auto
qed

lemma run_bijective:
  "\<forall>r. bijective (heap s r) \<Longrightarrow> benign_run s ops \<Longrightarrow> \<forall>r. bijective (heap (run s ops) r)"
proof (induction ops arbitrary: s)
  case Nil
  then show ?case by simp
next
  case (Cons x xs)
  show ?case
  proof (cases "exec s x")
    case (Inl e)
    with Cons show ?thesis by simp
  next
    case (Inr s')
    from Cons.prems have "benign s x" by simp
    from exec_bijective [OF Cons.prems(1) this Inr] have "\<forall>r. bijective (heap s' r)" .
    with Cons.IH [of s'] Cons.prems(2) Inr show ?thesis by simp
  qed
qed

lemma benign_run_take: "benign_run s ops \<Longrightarrow> benign_run s (take k ops)"
proof (induction ops arbitrary: s k)
  case Nil
  then show ?case by simp
next
  case (Cons x xs)
  then show ?case by (cases k) simp_all
qed

text \<open>
  Claim C1, amended. Started with every frame's dictionaries exact inverses, they stay
  exact inverses for every frame at every point of a sequence of operations in which
  every \<open>write(name, dim)\<close> finds the name unbound or bound to that dimension and the
  dimension unbound or bound to that name, every \<open>free(name, dim)\<close> finds the name,
  if bound, bound to that dimension and the dimension, if bound, bound to that name, and
  every \<open>request\<close> that gives a dimension and no name, fails its lookup and allocates
  finds the default name it hands out unbound, or bound to that dimension, in each frame
  it writes. Every other \<open>request\<close> keeps them inverses without condition.
\<close>

theorem bijection_preserved:
  assumes "\<forall>r. bijective (heap s r)" and "benign_run s ops"
  shows "\<forall>k r. bijective (heap (run s (take k ops)) r)"
  using run_bijective [OF assms(1) benign_run_take [OF assms(2)]] by blast

theorem bijection_preserved_witness:
  "(\<forall>r. bijective (heap init r))
   \<and> benign_run init
     [Request (NameVal (Some ''x'')) (DimReq (DimRequest None LOCAL)),
      Push 1,
      Request (NameVal (Some ''y'')) (DimReq (DimRequest None LOCAL)),
      Write 0 (Some ''z'') (Some (- 5)),
      Free 0 (Some ''x'') (Some (- 1)),
      Request (NameReq (NameRequest None GLOBAL)) (DimVal (Some (- 7))),
      Request (NameReq (NameRequest None GLOBAL)) (DimVal (Some (- 7))),
      Pop]
   \<and> (\<forall>r. bijective (heap (run init
     [Request (NameVal (Some ''x'')) (DimReq (DimRequest None LOCAL)),
      Push 1,
      Request (NameVal (Some ''y'')) (DimReq (DimRequest None LOCAL)),
      Write 0 (Some ''z'') (Some (- 5)),
      Free 0 (Some ''x'') (Some (- 1)),
      Request (NameReq (NameRequest None GLOBAL)) (DimVal (Some (- 7))),
      Request (NameReq (NameRequest None GLOBAL)) (DimVal (Some (- 7))),
      Pop]) r))
   \<and> heap (run init
     [Request (NameVal (Some ''x'')) (DimReq (DimRequest None LOCAL)),
      Push 1,
      Request (NameVal (Some ''y'')) (DimReq (DimRequest None LOCAL)),
      Write 0 (Some ''z'') (Some (- 5)),
      Free 0 (Some ''x'') (Some (- 1)),
      Request (NameReq (NameRequest None GLOBAL)) (DimVal (Some (- 7))),
      Request (NameReq (NameRequest None GLOBAL)) (DimVal (Some (- 7))),
      Pop]) 0
     = empty_frame\<lparr>dim_to_name := [(- 5, ''z''), (- 7, ''_pyro_dim_7'')],
                     name_to_dim := [(''z'', - 5), (''_pyro_dim_7'', - 7)]\<rparr>"
proof -
  have b: "\<forall>r. bijective (heap init r)"
    by (simp add: bijective_def init_def empty_frame_def)
  have r: "benign_run init
     [Request (NameVal (Some ''x'')) (DimReq (DimRequest None LOCAL)),
      Push 1,
      Request (NameVal (Some ''y'')) (DimReq (DimRequest None LOCAL)),
      Write 0 (Some ''z'') (Some (- 5)),
      Free 0 (Some ''x'') (Some (- 1)),
      Request (NameReq (NameRequest None GLOBAL)) (DimVal (Some (- 7))),
      Request (NameReq (NameRequest None GLOBAL)) (DimVal (Some (- 7))),
      Pop]"
    by (simp add: model_defs search_dim.simps str_nat.simps)
  have h: "heap (run init
     [Request (NameVal (Some ''x'')) (DimReq (DimRequest None LOCAL)),
      Push 1,
      Request (NameVal (Some ''y'')) (DimReq (DimRequest None LOCAL)),
      Write 0 (Some ''z'') (Some (- 5)),
      Free 0 (Some ''x'') (Some (- 1)),
      Request (NameReq (NameRequest None GLOBAL)) (DimVal (Some (- 7))),
      Request (NameReq (NameRequest None GLOBAL)) (DimVal (Some (- 7))),
      Pop]) 0
     = empty_frame\<lparr>dim_to_name := [(- 5, ''z''), (- 7, ''_pyro_dim_7'')],
                     name_to_dim := [(''z'', - 5), (''_pyro_dim_7'', - 7)]\<rparr>"
    by (simp add: model_defs search_dim.simps str_nat.simps)
  from bijection_preserved [OF b r] have "\<forall>r. bijective (heap (run init (take 8
     [Request (NameVal (Some ''x'')) (DimReq (DimRequest None LOCAL)),
      Push 1,
      Request (NameVal (Some ''y'')) (DimReq (DimRequest None LOCAL)),
      Write 0 (Some ''z'') (Some (- 5)),
      Free 0 (Some ''x'') (Some (- 1)),
      Request (NameReq (NameRequest None GLOBAL)) (DimVal (Some (- 7))),
      Request (NameReq (NameRequest None GLOBAL)) (DimVal (Some (- 7))),
      Pop])) r)"
    by blast
  then have "\<forall>r. bijective (heap (run init
     [Request (NameVal (Some ''x'')) (DimReq (DimRequest None LOCAL)),
      Push 1,
      Request (NameVal (Some ''y'')) (DimReq (DimRequest None LOCAL)),
      Write 0 (Some ''z'') (Some (- 5)),
      Free 0 (Some ''x'') (Some (- 1)),
      Request (NameReq (NameRequest None GLOBAL)) (DimVal (Some (- 7))),
      Request (NameReq (NameRequest None GLOBAL)) (DimVal (Some (- 7))),
      Pop]) r)"
    by simp
  with b r h show ?thesis by blast
qed

end
